theory Spec2Isabelle
  imports Complex_Main "HOL-Library.Sublist" "HOL-Library.Log_Nat"
begin

section \<open>Data model of kickeststats/team.py\<close>

text \<open>
  Modelled from the spec: the \<^verbatim>\<open>Player\<close> class lives in \<^verbatim>\<open>kickeststats/player.py\<close>, which is
  not part of the sources at hand. \<^verbatim>\<open>team.py\<close> reads four columns of the data frames built
  from players: \<^verbatim>\<open>_id\<close>, \<^verbatim>\<open>position_name\<close>, \<^verbatim>\<open>points\<close> and \<^verbatim>\<open>captain\<close>. The position categories
  are the four of the spec. The points of a player are a finite double, represented by the
  real number it denotes; the comparisons of \<^verbatim>\<open>team.py\<close> with \<^verbatim>\<open>0.0\<close> are exact.
\<close>

datatype position = GOALKEEPER | DEFENDER | MIDFIELDER | FORWARD

record Player =
  p_id :: string
  position_name :: position
  points :: real
  captain :: bool

text \<open>
  Modelled from the spec: \<^verbatim>\<open>LINE_UP_FACTORY\<close> and \<^verbatim>\<open>POSITION_NAMES_TO_ATTRIBUTES\<close> come from
  \<^verbatim>\<open>kickeststats/line_up.py\<close>, absent from the sources. A line-up is the requirement vector
  of the spec; the identifiers are the seven of the constructor's docstring, each read as
  defenders-midfielders-forwards with one goalkeeper.
\<close>

record LineUp =
  goalkeeper :: nat
  defenders :: nat
  midfielders :: nat
  forwards :: nat

definition mk_line_up :: "nat \<Rightarrow> nat \<Rightarrow> nat \<Rightarrow> LineUp" where
  "mk_line_up d m f = \<lparr>goalkeeper = 1, defenders = d, midfielders = m, forwards = f\<rparr>"

definition LINE_UP_FACTORY :: "(string \<times> LineUp) list" where
  "LINE_UP_FACTORY =
     [(''3-4-3'', mk_line_up 3 4 3), (''4-3-3'', mk_line_up 4 3 3),
      (''3-5-2'', mk_line_up 3 5 2), (''4-4-2'', mk_line_up 4 4 2),
      (''5-3-2'', mk_line_up 5 3 2), (''4-5-1'', mk_line_up 4 5 1),
      (''5-4-1'', mk_line_up 5 4 1)]"

text \<open>\<^verbatim>\<open>getattr(self.line_up, POSITION_NAMES_TO_ATTRIBUTES[position_name])\<close>\<close>

fun line_up_attr :: "LineUp \<Rightarrow> position \<Rightarrow> nat" where
  "line_up_attr lu GOALKEEPER = goalkeeper lu"
| "line_up_attr lu DEFENDER = defenders lu"
| "line_up_attr lu MIDFIELDER = midfielders lu"
| "line_up_attr lu FORWARD = forwards lu"

datatype error =
    UnsupportedLineUp string
  | InvalidTeamLineup nat position string
  | KeyError string
  | ValueError

record Team =
  players :: "Player list"
  substitutes :: "Player list"
  line_up :: LineUp

text \<open>
  What the module reads from outside: \<^verbatim>\<open>MAX_SUBSTITUTIONS\<close> is
  \<^verbatim>\<open>int(os.environ.get("KICKESTSTATS_MAX_SUBSTITUTIONS", 5))\<close>, any integer;
  \<^verbatim>\<open>sample_row\<close> stands for the random choice of \<^verbatim>\<open>self.players.sample(1)\<close>;
  \<^verbatim>\<open>empty_frame_has_columns\<close> says whether \<^verbatim>\<open>Player.from_list_to_df([])\<close> (absent from the
  sources) yields a frame that has the player columns. A frame built from a non-empty
  list always has them.
\<close>

record env =
  MAX_SUBSTITUTIONS :: int
  sample_row :: nat
  empty_frame_has_columns :: bool

definition default_env :: env where
  "default_env = \<lparr>MAX_SUBSTITUTIONS = 5, sample_row = 0, empty_frame_has_columns = True\<rparr>"

text \<open>Reading a column of \<^verbatim>\<open>Player.from_list_to_df(rows)\<close>: a \<^verbatim>\<open>KeyError\<close> when the frame has none.\<close>

definition column_missing :: "env \<Rightarrow> Player list \<Rightarrow> bool" where
  "column_missing e rows = (rows = [] \<and> \<not> empty_frame_has_columns e)"

section \<open>Team.__init__\<close>

text \<open>
  \<^verbatim>\<open>self.players.groupby("position_name").size().to_dict().items()\<close>: one entry for each
  position name that occurs in the roster, in the sorted order of the group keys.
\<close>

definition groupby_size :: "Player list \<Rightarrow> (position \<times> nat) list" where
  "groupby_size ps =
     map (\<lambda>c. (c, length (filter (\<lambda>p. position_name p = c) ps)))
       (filter (\<lambda>c. c \<in> set (map position_name ps)) [DEFENDER, FORWARD, GOALKEEPER, MIDFIELDER])"

fun validate_groups :: "LineUp \<Rightarrow> string \<Rightarrow> (position \<times> nat) list \<Rightarrow> error option" where
  "validate_groups lu name [] = None"
| "validate_groups lu name ((c, n) # rest) =
     (if line_up_attr lu c \<noteq> n then Some (InvalidTeamLineup n c name)
      else validate_groups lu name rest)"

definition Team_init :: "env \<Rightarrow> Player list \<Rightarrow> string \<Rightarrow> Player list \<Rightarrow> error + Team" where
  "Team_init e ps name subs =
     (case map_of LINE_UP_FACTORY name of
        None \<Rightarrow> Inl (UnsupportedLineUp name)
      | Some lu \<Rightarrow>
          if column_missing e ps then Inl (KeyError ''position_name'')
          else (case validate_groups lu name (groupby_size ps) of
                  Some err \<Rightarrow> Inl err
                | None \<Rightarrow> Inr \<lparr>players = ps, substitutes = subs, line_up = lu\<rparr>))"

section \<open>Team.points\<close>

text \<open>Lines 93-97: the first flagged roster player, else a sampled one (no row to sample
  from an empty roster: pandas raises \<^verbatim>\<open>ValueError\<close>).\<close>

definition resolve_captain :: "env \<Rightarrow> Player list \<Rightarrow> error + string" where
  "resolve_captain e ps =
     (case filter captain ps of
        c # _ \<Rightarrow> Inr (p_id c)
      | [] \<Rightarrow> (if ps = [] then Inl ValueError
               else Inr (p_id (ps ! (sample_row e mod length ps)))))"

text \<open>Lines 90-92 and 98: the rows of the fixture statistics whose id is a roster id, in the
  order of the statistics, their captain column overwritten.\<close>

definition playing_players :: "Team \<Rightarrow> string \<Rightarrow> Player list \<Rightarrow> Player list" where
  "playing_players team captain_id all_players =
     map (\<lambda>p. p\<lparr>captain := (p_id p = captain_id)\<rparr>)
       (filter (\<lambda>p. p_id p \<in> set (map p_id (players team))) all_players)"

text \<open>Lines 101-103.\<close>

definition potential_substitutes :: "Team \<Rightarrow> Player list \<Rightarrow> Player list" where
  "potential_substitutes team all_players =
     filter (\<lambda>p. points p > 0 \<and> p_id p \<in> set (map p_id (substitutes team))) all_players"

text \<open>
  Lines 106-107, \<^verbatim>\<open>reindex(target).dropna()\<close> on a frame indexed by \<^verbatim>\<open>_id\<close>: pandas returns the
  frame as it is when the index equals the target, refuses an index with duplicate labels
  (\<^verbatim>\<open>ValueError\<close>), and otherwise picks for each target label its row; labels without a row
  give an all-NaN row, which \<^verbatim>\<open>dropna\<close> removes.
\<close>

definition reindex_dropna :: "Player list \<Rightarrow> string list \<Rightarrow> error + Player list" where
  "reindex_dropna rows target =
     (if map p_id rows = target then Inr rows
      else if \<not> distinct (map p_id rows) then Inl ValueError
      else Inr (concat (map (\<lambda>i. filter (\<lambda>r. p_id r = i) rows) target)))"

definition reordered_substitutes :: "Team \<Rightarrow> Player list \<Rightarrow> error + Player list" where
  "reordered_substitutes team all_players =
     reindex_dropna (potential_substitutes team all_players) (map p_id (substitutes team))"

text \<open>Lines 111-135: the substitution loop and its three variables.\<close>

record substitution_state =
  to_be_substituted_ids :: "string list"
  substitutes_ids :: "string list"
  captain_substitute_id :: string

definition initial_state :: substitution_state where
  "initial_state = \<lparr>to_be_substituted_ids = [], substitutes_ids = [], captain_substitute_id = []\<rparr>"

definition candidates_for_substitution :: "Player list \<Rightarrow> Player list" where
  "candidates_for_substitution playing = filter (\<lambda>p. points p = 0) playing"

definition substitutes_per_position ::
    "Player list \<Rightarrow> Player \<Rightarrow> substitution_state \<Rightarrow> Player list" where
  "substitutes_per_position subs player st =
     filter (\<lambda>s. position_name s = position_name player \<and> p_id s \<notin> set (substitutes_ids st)) subs"

text \<open>Lines 117-132: the body of the loop up to the test of the limit.\<close>

definition attempt_substitution ::
    "Player list \<Rightarrow> Player \<Rightarrow> substitution_state \<Rightarrow> substitution_state" where
  "attempt_substitution subs player st =
     (case substitutes_per_position subs player st of
        [] \<Rightarrow> st
      | s # _ \<Rightarrow>
          \<lparr>to_be_substituted_ids = to_be_substituted_ids st @ [p_id player],
           substitutes_ids = substitutes_ids st @ [p_id s],
           captain_substitute_id =
             (if captain player then p_id s else captain_substitute_id st)\<rparr>)"

fun substitution_loop ::
    "int \<Rightarrow> Player list \<Rightarrow> Player list \<Rightarrow> substitution_state \<Rightarrow> substitution_state" where
  "substitution_loop m subs [] st = st"
| "substitution_loop m subs (player # rest) st =
     (let st' = attempt_substitution subs player st
      in if int (length (to_be_substituted_ids st')) = m then st'
         else substitution_loop m subs rest st')"

text \<open>Lines 137-142: the final list; the captain column is recomputed when
  \<^verbatim>\<open>captain_substitute_id\<close> is not the empty string.\<close>

definition final_list ::
    "Player list \<Rightarrow> Player list \<Rightarrow> substitution_state \<Rightarrow> Player list" where
  "final_list playing subs st =
     (let kept = filter (\<lambda>p. p_id p \<notin> set (to_be_substituted_ids st)) playing
                 @ filter (\<lambda>s. p_id s \<in> set (substitutes_ids st)) subs
      in if captain_substitute_id st \<noteq> []
         then map (\<lambda>p. p\<lparr>captain := (p_id p = captain_substitute_id st)\<rparr>) kept
         else kept)"

text \<open>Lines 109-143, given the playing players and the reordered substitutes.\<close>

definition run_substitutions :: "env \<Rightarrow> Player list \<Rightarrow> Player list \<Rightarrow> substitution_state" where
  "run_substitutions e playing subs =
     substitution_loop (MAX_SUBSTITUTIONS e) subs (candidates_for_substitution playing)
       initial_state"

definition substitute_players :: "env \<Rightarrow> Player list \<Rightarrow> Player list \<Rightarrow> Player list" where
  "substitute_players e playing subs =
     (if subs = [] then playing
      else final_list playing subs (run_substitutions e playing subs))"

text \<open>Lines 87-143: the players that are scored, or the exception raised on the way.\<close>

definition final_players :: "env \<Rightarrow> Team \<Rightarrow> Player list \<Rightarrow> error + Player list" where
  "final_players e team all_players =
     (if column_missing e all_players then Inl (KeyError ''points'')
      else if column_missing e (players team) then Inl (KeyError ''_id'')
      else (case resolve_captain e (players team) of
              Inl err \<Rightarrow> Inl err
            | Inr captain_id \<Rightarrow>
                if column_missing e (substitutes team) then Inl (KeyError ''_id'')
                else (case reordered_substitutes team all_players of
                        Inl err \<Rightarrow> Inl err
                      | Inr subs \<Rightarrow>
                          Inr (substitute_players e
                                 (playing_players team captain_id all_players) subs))))"

text \<open>
  Lines 145-150 in exact arithmetic. The code adds and rounds IEEE doubles; the sums below
  and \<^verbatim>\<open>np_round2\<close> give the value of the code only where every double operation is exact,
  as for the small integers of the examples. Nothing is stated here about the value
  returned for other statistics.
\<close>

definition player_score :: "Player \<Rightarrow> real" where
  "player_score p = (if captain p then 2 * points p else points p)"

fun accumulate_points :: "real \<Rightarrow> Player list \<Rightarrow> real" where
  "accumulate_points acc [] = acc"
| "accumulate_points acc (player # rest) = accumulate_points (acc + player_score player) rest"

text \<open>\<^verbatim>\<open>np.round(x, 2)\<close>: scale by 100, round to the nearest integer with ties to even, scale
  back (each step exact here, a double operation in the code).\<close>

definition rint :: "real \<Rightarrow> int" where
  "rint y = (let f = \<lfloor>y\<rfloor>; d = y - of_int f
             in if d < 1 / 2 then f
                else if 1 / 2 < d then f + 1
                else if even f then f else f + 1)"

definition np_round2 :: "real \<Rightarrow> real" where
  "np_round2 x = of_int (rint (x * 100)) / 100"

definition Team_points :: "env \<Rightarrow> Team \<Rightarrow> Player list \<Rightarrow> bool \<Rightarrow> error + real" where
  "Team_points e team all_players is_away =
     (case final_players e team all_players of
        Inl err \<Rightarrow> Inl err
      | Inr final \<Rightarrow> Inr (np_round2 (accumulate_points (if is_away then 0 else 6) final)))"

section \<open>points_to_goals\<close>

text \<open>
  \<^verbatim>\<open>GOAL_THRESHOLD\<close> and \<^verbatim>\<open>GOAL_GAP\<close> are \<^verbatim>\<open>float(os.environ.get(..., 200))\<close> and
  \<^verbatim>\<open>float(os.environ.get(..., 20))\<close>; the values here are the defaults, the doubles 200.0
  and 20.0.
\<close>

definition GOAL_THRESHOLD :: nat where "GOAL_THRESHOLD = 200"

definition GOAL_GAP :: nat where "GOAL_GAP = 20"

text \<open>
  The variable \<^verbatim>\<open>threshold\<close> is a double. Every value it takes is a non-negative integer
  (200.0, then sums of two integers rounded to a double), and is represented by that
  natural number. \<^verbatim>\<open>threshold += GOAL_GAP\<close> is the addition of IEEE 754 binary64: the exact
  sum, rounded to the nearest number with a 53-bit significand, a tie going to the even
  significand. A natural number below \<open>2^53\<close> is such a number; one of \<open>53 + e\<close> bits is
  rounded to a multiple of \<open>2^e\<close>. (Overflow, at \<open>2^1024\<close>, is out of reach of the loop.)
\<close>

definition round_binary64 :: "nat \<Rightarrow> nat" where
  "round_binary64 n =
     (if n < 2 ^ 53 then n
      else let e = floorlog 2 n - 53; q = n div 2 ^ e; r = n mod 2 ^ e; h = 2 ^ (e - 1)
           in if r < h \<or> (r = h \<and> even q) then q * 2 ^ e else (q + 1) * 2 ^ e)"

definition float_add :: "nat \<Rightarrow> nat \<Rightarrow> nat" where
  "float_add x y = round_binary64 (x + y)"

text \<open>
  Lines 26-31. The argument is any finite number; the comparison \<^verbatim>\<open>points > threshold\<close> is
  exact. The loop need not end: not returning is the value \<open>None\<close>.
\<close>

partial_function (option) goals_loop :: "real \<Rightarrow> nat \<Rightarrow> nat \<Rightarrow> nat option" where
  "goals_loop pts goals threshold =
     (if real threshold < pts
      then goals_loop pts (goals + 1) (float_add threshold GOAL_GAP)
      else Some goals)"

definition points_to_goals :: "real \<Rightarrow> nat option" where
  "points_to_goals pts = goals_loop pts 0 GOAL_THRESHOLD"

section \<open>Properties of the substitution loop, as predicates\<close>

text \<open>
  Every recorded substitution pairs a candidate with the first row of the reordered
  substitutes that has the candidate's position and whose id was not recorded before: all
  rows in front of it with that position were used by earlier substitutions.
\<close>

definition first_unused_choice ::
    "Player list \<Rightarrow> Player list \<Rightarrow> substitution_state \<Rightarrow> bool" where
  "first_unused_choice subs cands st =
     (\<forall>k<length (substitutes_ids st).
        \<exists>c\<in>set cands. \<exists>pre s post.
          p_id c = to_be_substituted_ids st ! k \<and> subs = pre @ s # post
          \<and> p_id s = substitutes_ids st ! k \<and> position_name s = position_name c
          \<and> (\<forall>s'\<in>set pre. position_name s' = position_name c
                 \<longrightarrow> p_id s' \<in> set (take k (substitutes_ids st))))"

definition greedy_invariant ::
    "Player list \<Rightarrow> Player list \<Rightarrow> substitution_state \<Rightarrow> bool" where
  "greedy_invariant subs cands st =
     (distinct (substitutes_ids st)
      \<and> length (to_be_substituted_ids st) = length (substitutes_ids st)
      \<and> first_unused_choice subs cands st)"

section \<open>Example rosters and statistics\<close>

definition mk_player :: "string \<Rightarrow> position \<Rightarrow> real \<Rightarrow> bool \<Rightarrow> Player" where
  "mk_player i c x k = \<lparr>p_id = i, position_name = c, points = x, captain = k\<rparr>"

text \<open>Two forwards, the first one captain, with one forward on the bench.\<close>

definition duo_team :: Team where
  "duo_team =
     \<lparr>players = [mk_player ''A'' FORWARD 0 True, mk_player ''B'' FORWARD 0 False],
      substitutes = [mk_player ''S'' FORWARD 0 False],
      line_up = mk_line_up 4 4 2\<rparr>"

text \<open>The same two forwards with two forwards on the bench, \<^verbatim>\<open>S1\<close> before \<^verbatim>\<open>S2\<close>.\<close>

definition pair_team :: Team where
  "pair_team =
     \<lparr>players = [mk_player ''A'' FORWARD 0 True, mk_player ''B'' FORWARD 0 False],
      substitutes = [mk_player ''S1'' FORWARD 0 False, mk_player ''S2'' FORWARD 0 False],
      line_up = mk_line_up 4 4 2\<rparr>"

definition pair_statistics :: "Player list" where
  "pair_statistics =
     [mk_player ''A'' FORWARD 0 False, mk_player ''B'' FORWARD 0 False,
      mk_player ''S2'' FORWARD 3 False, mk_player ''S1'' FORWARD 2 False]"


definition no_columns_env :: env where
  "no_columns_env = \<lparr>MAX_SUBSTITUTIONS = 5, sample_row = 0, empty_frame_has_columns = False\<rparr>"

section \<open>Roster validation\<close>

lemma validate_groups_None_iff:
  "validate_groups lu name gs = None \<longleftrightarrow> (\<forall>(c, n)\<in>set gs. line_up_attr lu c = n)"
  by (induction lu name gs rule: validate_groups.induct) (auto split: if_splits)

lemma validate_groups_Some:
  "validate_groups lu name gs = Some err \<Longrightarrow>
     \<exists>c n. (c, n) \<in> set gs \<and> line_up_attr lu c \<noteq> n \<and> err = InvalidTeamLineup n c name"
  by (induction lu name gs rule: validate_groups.induct) (auto split: if_splits)

lemma set_groupby_size:
  "set (groupby_size ps) =
     (\<lambda>c. (c, length (filter (\<lambda>p. position_name p = c) ps))) ` (position_name ` set ps)"
proof -
  have "set (filter (\<lambda>c. c \<in> set (map position_name ps)) [DEFENDER, FORWARD, GOALKEEPER, MIDFIELDER])
          = position_name ` set ps"
  proof -
    have "c \<in> set [DEFENDER, FORWARD, GOALKEEPER, MIDFIELDER]" for c
      by (cases c) simp_all
    then have "set [DEFENDER, FORWARD, GOALKEEPER, MIDFIELDER] = UNIV" by blast
    then show ?thesis by (simp only: set_filter set_map) simp
  qed
  then show ?thesis
    by (simp only: groupby_size_def set_map)
qed

lemma Team_init_ok_iff:
  assumes "map_of LINE_UP_FACTORY name = Some lu" and "\<not> column_missing e ps"
  shows "(\<exists>team. Team_init e ps name subs = Inr team) \<longleftrightarrow>
           (\<forall>c\<in>position_name ` set ps.
              line_up_attr lu c = length (filter (\<lambda>p. position_name p = c) ps))"
proof -
  have "(\<exists>team. Team_init e ps name subs = Inr team)
          \<longleftrightarrow> validate_groups lu name (groupby_size ps) = None"
    using assms by (simp add: Team_init_def split: option.splits)
  then show ?thesis
    by (simp add: validate_groups_None_iff set_groupby_size)
qed

section \<open>The substitution loop\<close>

lemma attempt_substitution_lengths:
  "length (to_be_substituted_ids (attempt_substitution subs p st))
     \<le> Suc (length (to_be_substituted_ids st))"
  by (simp add: attempt_substitution_def split: list.splits)

lemma substitution_loop_bound:
  "int (length (to_be_substituted_ids st)) < m \<Longrightarrow>
     int (length (to_be_substituted_ids (substitution_loop m subs cands st))) \<le> m"
proof (induction cands arbitrary: st)
  case Nil
  then show ?case by simp
next
  case (Cons p cands)
  let ?st = "attempt_substitution subs p st"
  show ?case
  proof (cases "int (length (to_be_substituted_ids ?st)) = m")
    case True
    then show ?thesis by (simp add: Let_def)
  next
    case False
    moreover have "int (length (to_be_substituted_ids ?st)) < m"
      using False Cons.prems attempt_substitution_lengths [of subs p st] by linarith
    ultimately show ?thesis using Cons.IH [of ?st] by (simp add: Let_def)
  qed
qed




lemma substitutes_per_position_captain [simp]:
  "substitutes_per_position subs (p\<lparr>captain := k\<rparr>) st = substitutes_per_position subs p st"
  by (simp add: substitutes_per_position_def)

lemma greedy_invariant_initial: "greedy_invariant subs cands initial_state"
  by (simp add: greedy_invariant_def first_unused_choice_def initial_state_def)

lemma filter_eq_Cons_split:
  "filter P xs = y # ys \<Longrightarrow> \<exists>pre post. xs = pre @ y # post \<and> (\<forall>x\<in>set pre. \<not> P x) \<and> P y"
  by (auto simp: filter_eq_Cons_iff)

lemma greedy_invariant_attempt:
  assumes inv: "greedy_invariant subs cands st" and mem: "p \<in> set cands"
  shows "greedy_invariant subs cands (attempt_substitution subs p st)"
proof (cases "substitutes_per_position subs p st")
  case Nil
  then show ?thesis using inv by (simp add: attempt_substitution_def)
next
  case (Cons s rest)
  let ?sids = "substitutes_ids st" and ?tbs = "to_be_substituted_ids st"
  let ?st = "attempt_substitution subs p st"
  have st': "substitutes_ids ?st = ?sids @ [p_id s]"
            "to_be_substituted_ids ?st = ?tbs @ [p_id p]"
    using Cons by (simp_all add: attempt_substitution_def)
  from Cons obtain pre post where split: "subs = pre @ s # post"
    and before: "\<forall>x\<in>set pre. \<not> (position_name x = position_name p \<and> p_id x \<notin> set ?sids)"
    and chosen: "position_name s = position_name p" "p_id s \<notin> set ?sids"
    unfolding substitutes_per_position_def
    by (drule_tac filter_eq_Cons_split) blast
  from inv have d: "distinct ?sids" and len: "length ?tbs = length ?sids"
    and old: "first_unused_choice subs cands st"
    by (simp_all add: greedy_invariant_def)
  have "first_unused_choice subs cands ?st"
    unfolding first_unused_choice_def
  proof (intro allI impI)
    fix k assume "k < length (substitutes_ids ?st)"
    then have "k < length ?sids \<or> k = length ?sids" by (auto simp: st')
    then consider "k < length ?sids" | "k = length ?sids" by blast
    then show "\<exists>c\<in>set cands. \<exists>pre s post.
          p_id c = to_be_substituted_ids ?st ! k \<and> subs = pre @ s # post
          \<and> p_id s = substitutes_ids ?st ! k \<and> position_name s = position_name c
          \<and> (\<forall>s'\<in>set pre. position_name s' = position_name c
                 \<longrightarrow> p_id s' \<in> set (take k (substitutes_ids ?st)))"
    proof cases
      case 1
      with old show ?thesis
        unfolding first_unused_choice_def st' using len
        by (simp add: nth_append)
    next
      case 2
      have a: "p_id p = to_be_substituted_ids ?st ! k"
        using 2 len [symmetric] by (simp add: st')
      have b: "p_id s = substitutes_ids ?st ! k" using 2 by (simp add: st')
      have c: "take k (substitutes_ids ?st) = ?sids" using 2 by (simp add: st')
      have "\<forall>s'\<in>set pre. position_name s' = position_name p
              \<longrightarrow> p_id s' \<in> set (take k (substitutes_ids ?st))"
        using before unfolding c by blast
      with mem a split b chosen(1) show ?thesis by blast
    qed
  qed
  with d len chosen show ?thesis
    by (simp add: greedy_invariant_def st')
qed

lemma greedy_invariant_loop:
  "greedy_invariant subs all st \<Longrightarrow> set cands \<subseteq> set all \<Longrightarrow>
     greedy_invariant subs all (substitution_loop m subs cands st)"
proof (induction cands arbitrary: st)
  case Nil
  then show ?case by simp
next
  case (Cons p cands)
  then have "greedy_invariant subs all (attempt_substitution subs p st)"
    by (simp add: greedy_invariant_attempt)
  with Cons show ?case by (simp add: Let_def)
qed

lemma map_p_id_filter_distinct:
  "distinct (map p_id rows) \<Longrightarrow>
     map p_id (filter (\<lambda>r. p_id r = i) rows) = (if i \<in> p_id ` set rows then [i] else [])"
  by (induction rows) (auto simp: filter_empty_conv)

lemma map_p_id_reindex:
  assumes "distinct (map p_id rows)"
  shows "map p_id (concat (map (\<lambda>i. filter (\<lambda>r. p_id r = i) rows) target))
           = filter (\<lambda>i. i \<in> p_id ` set rows) target"
  by (induction target) (simp_all add: map_p_id_filter_distinct [OF assms])

lemma reindex_dropna_order:
  assumes "reindex_dropna rows target = Inr subs" and "p_id ` set rows \<subseteq> set target"
  shows "map p_id subs = filter (\<lambda>i. i \<in> p_id ` set rows) target \<and> set subs = set rows"
proof (cases "map p_id rows = target")
  case True
  then have "subs = rows" using assms by (simp add: reindex_dropna_def)
  moreover have "set target = p_id ` set rows" using True by auto
  ultimately show ?thesis using True by (simp add: filter_id_conv)
next
  case False
  then have d: "distinct (map p_id rows)"
    and subs: "subs = concat (map (\<lambda>i. filter (\<lambda>r. p_id r = i) rows) target)"
    using assms by (auto simp: reindex_dropna_def split: if_splits)
  have "set subs = set rows" using assms(2) unfolding subs by auto
  then show ?thesis using map_p_id_reindex [OF d] subs by simp
qed


section \<open>Captain flags and exceptions\<close>

lemma attempt_substitution_no_substitute:
  "substitutes_per_position subs p st = [] \<Longrightarrow> attempt_substitution subs p st = st"
  by (simp add: attempt_substitution_def)

lemma run_substitutions_bound:
  "0 < MAX_SUBSTITUTIONS e \<Longrightarrow>
     int (length (to_be_substituted_ids (run_substitutions e playing subs))) \<le> MAX_SUBSTITUTIONS e"
  unfolding run_substitutions_def
  by (rule substitution_loop_bound) (simp add: initial_state_def)

lemma final_list_transferred_flag:
  "captain_substitute_id st \<noteq> [] \<Longrightarrow> p \<in> set (final_list playing subs st) \<Longrightarrow>
     captain p \<longleftrightarrow> p_id p = captain_substitute_id st"
  by (auto simp: final_list_def Let_def)

lemma final_list_starters_keep_flag:
  "captain_substitute_id st = [] \<Longrightarrow>
     final_list (playing_players team captain_id all_players) subs st
       = filter (\<lambda>p. p_id p \<notin> set (to_be_substituted_ids st))
           (playing_players team captain_id all_players)
         @ filter (\<lambda>s. p_id s \<in> set (substitutes_ids st)) subs"
  by (simp add: final_list_def)

lemma playing_players_flag:
  "p \<in> set (playing_players team captain_id all_players) \<Longrightarrow> captain p \<longleftrightarrow> p_id p = captain_id"
  by (auto simp: playing_players_def)

lemma substitution_loop_no_captain:
  "\<forall>p\<in>set cands. \<not> captain p \<Longrightarrow>
     captain_substitute_id (substitution_loop m subs cands st) = captain_substitute_id st"
proof (induction cands arbitrary: st)
  case Nil
  then show ?case by simp
next
  case (Cons p cands)
  then have "captain_substitute_id (attempt_substitution subs p st) = captain_substitute_id st"
    by (simp add: attempt_substitution_def split: list.splits)
  with Cons show ?case by (simp add: Let_def)
qed

lemma absent_captain_not_playing:
  assumes "captain_id \<notin> p_id ` set all_players"
  shows "captain_id \<notin> p_id ` set (playing_players team captain_id all_players)"
    and "\<forall>p\<in>set (playing_players team captain_id all_players). \<not> captain p"
    and "captain_substitute_id
           (run_substitutions e (playing_players team captain_id all_players) subs) = []"
proof -
  have "map p_id (playing_players team captain_id all_players)
          = map p_id (filter (\<lambda>p. p_id p \<in> set (map p_id (players team))) all_players)"
    by (simp add: playing_players_def comp_def)
  then have "set (map p_id (playing_players team captain_id all_players))
               \<subseteq> set (map p_id all_players)"
    by auto
  then show a: "captain_id \<notin> p_id ` set (playing_players team captain_id all_players)"
    using assms by auto
  then show b: "\<forall>p\<in>set (playing_players team captain_id all_players). \<not> captain p"
    using playing_players_flag [of _ team captain_id all_players] by force
  then show "captain_substitute_id
           (run_substitutions e (playing_players team captain_id all_players) subs) = []"
    unfolding run_substitutions_def
    by (subst substitution_loop_no_captain)
       (simp_all add: candidates_for_substitution_def initial_state_def)
qed



section \<open>Evaluation of the examples\<close>

lemma mk_player_simps [simp]:
  "p_id (mk_player i c x k) = i" "position_name (mk_player i c x k) = c"
  "points (mk_player i c x k) = x" "captain (mk_player i c x k) = k"
  by (simp_all add: mk_player_def)

lemma mk_player_update [simp]:
  "(mk_player i c x k)\<lparr>captain := k'\<rparr> = mk_player i c x k'"
  by (simp add: mk_player_def)

lemmas scoring_defs =
  Team_points_def final_players_def column_missing_def resolve_captain_def
  reordered_substitutes_def reindex_dropna_def potential_substitutes_def playing_players_def
  substitute_players_def run_substitutions_def candidates_for_substitution_def
  attempt_substitution_def substitutes_per_position_def initial_state_def final_list_def
  np_round2_def rint_def player_score_def Let_def

lemmas example_defs =
  duo_team_def pair_team_def pair_statistics_def default_env_def no_columns_env_def

text \<open>
  C6. The constructor compares only the position names that occur in the roster (the keys of
  the group-by), so a category the roster lacks is never compared: a roster of one goalkeeper
  is accepted for 4-4-2, whose four defenders it does not have. (\<^verbatim>\<open>Team_init_ok_iff\<close> above
  is what the constructor does check.)
\<close>

theorem Team_init_accepts_missing_categories:
  "Team_init e [mk_player ''G1'' GOALKEEPER 6 False] ''4-4-2'' []
     = Inr \<lparr>players = [mk_player ''G1'' GOALKEEPER 6 False], substitutes = [],
            line_up = mk_line_up 4 4 2\<rparr>
   \<and> length (filter (\<lambda>p. position_name p = DEFENDER) [mk_player ''G1'' GOALKEEPER 6 False])
       \<noteq> line_up_attr (mk_line_up 4 4 2) DEFENDER"
  by (simp add: Team_init_def LINE_UP_FACTORY_def groupby_size_def column_missing_def
      mk_line_up_def)




text \<open>
  C2. With \<^verbatim>\<open>MAX_SUBSTITUTIONS = 0\<close> the test of line 133 is first made after a substitution,
  when one id is recorded already, and never holds: both starters are substituted.
  (For a positive limit the bound holds, \<^verbatim>\<open>substitution_loop_bound\<close>.)
\<close>

theorem zero_limit_is_no_limit:
  "to_be_substituted_ids
     (run_substitutions (default_env\<lparr>MAX_SUBSTITUTIONS := 0\<rparr>)
        (playing_players pair_team ''A'' pair_statistics)
        [mk_player ''S1'' FORWARD 2 False, mk_player ''S2'' FORWARD 3 False])
     = [''A'', ''B'']
   \<and> final_players (default_env\<lparr>MAX_SUBSTITUTIONS := 0\<rparr>) pair_team pair_statistics
       = Inr [mk_player ''S1'' FORWARD 2 True, mk_player ''S2'' FORWARD 3 False]"
  by (simp add: scoring_defs example_defs)

text \<open>
  C3. The reordered substitutes keep the order of the bench; each substitution takes the
  first of them that has the candidate's position and an id not used so far in the call;
  no id is used twice.
\<close>

theorem bench_priority_first_unused:
  assumes "reordered_substitutes team all_players = Inr subs"
  shows "map p_id subs = filter (\<lambda>i. i \<in> p_id ` set subs) (map p_id (substitutes team))
         \<and> distinct (substitutes_ids (run_substitutions e playing subs))
         \<and> first_unused_choice subs (candidates_for_substitution playing)
             (run_substitutions e playing subs)"
proof -
  let ?rows = "potential_substitutes team all_players"
  have "p_id ` set ?rows \<subseteq> set (map p_id (substitutes team))"
    by (auto simp: potential_substitutes_def)
  with assms have "map p_id subs = filter (\<lambda>i. i \<in> p_id ` set ?rows) (map p_id (substitutes team))
      \<and> set subs = set ?rows"
    unfolding reordered_substitutes_def by (rule reindex_dropna_order)
  then have order: "map p_id subs
      = filter (\<lambda>i. i \<in> p_id ` set subs) (map p_id (substitutes team))"
    by simp
  have "greedy_invariant subs (candidates_for_substitution playing)
          (run_substitutions e playing subs)"
    unfolding run_substitutions_def
    by (rule greedy_invariant_loop [OF greedy_invariant_initial]) simp
  with order show ?thesis by (simp add: greedy_invariant_def)
qed

text \<open>Witness for C3: two forwards on the bench, listed in the statistics in reverse order.\<close>

theorem bench_priority_first_unused_witness:
  "reordered_substitutes pair_team pair_statistics
     = Inr [mk_player ''S1'' FORWARD 2 False, mk_player ''S2'' FORWARD 3 False]
   \<and> substitutes_ids (run_substitutions default_env
        (playing_players pair_team ''A'' pair_statistics)
        [mk_player ''S1'' FORWARD 2 False, mk_player ''S2'' FORWARD 3 False]) = [''S1'', ''S2'']
   \<and> first_unused_choice [mk_player ''S1'' FORWARD 2 False, mk_player ''S2'' FORWARD 3 False]
        (candidates_for_substitution (playing_players pair_team ''A'' pair_statistics))
        (run_substitutions default_env (playing_players pair_team ''A'' pair_statistics)
           [mk_player ''S1'' FORWARD 2 False, mk_player ''S2'' FORWARD 3 False])"
proof -
  have h: "reordered_substitutes pair_team pair_statistics
     = Inr [mk_player ''S1'' FORWARD 2 False, mk_player ''S2'' FORWARD 3 False]"
    by (simp add: scoring_defs example_defs)
  have "substitutes_ids (run_substitutions default_env
        (playing_players pair_team ''A'' pair_statistics)
        [mk_player ''S1'' FORWARD 2 False, mk_player ''S2'' FORWARD 3 False]) = [''S1'', ''S2'']"
    by (simp add: scoring_defs example_defs)
  with h bench_priority_first_unused [OF h, of default_env
      "playing_players pair_team ''A'' pair_statistics"]
  show ?thesis by simp
qed

text \<open>
  C4. Without a captain substitution the captain column of a substitute is the one of its
  row in the fixture statistics: the substitute S, flagged there, is scored twice next to
  the captain A.
\<close>

theorem statistics_flag_of_substitute_is_scored:
  "final_players default_env duo_team
     [mk_player ''A'' FORWARD 5 False, mk_player ''B'' FORWARD 0 False,
      mk_player ''S'' FORWARD 3 True]
     = Inr [mk_player ''A'' FORWARD 5 True, mk_player ''S'' FORWARD 3 True]
   \<and> captain_substitute_id (run_substitutions default_env
        (playing_players duo_team ''A''
           [mk_player ''A'' FORWARD 5 False, mk_player ''B'' FORWARD 0 False,
            mk_player ''S'' FORWARD 3 True])
        [mk_player ''S'' FORWARD 3 True]) = []
   \<and> Team_points default_env duo_team
        [mk_player ''A'' FORWARD 5 False, mk_player ''B'' FORWARD 0 False,
         mk_player ''S'' FORWARD 3 True] True = Inr 16"
  by (simp add: scoring_defs example_defs)

text \<open>
  C10. The captain A has no row in the statistics; the substitute S, flagged in the
  statistics, replaces B and is scored twice.
\<close>

theorem absent_captain_substitute_doubled:
  "resolve_captain default_env (players duo_team) = Inr ''A''
   \<and> final_players default_env duo_team
       [mk_player ''B'' FORWARD 0 False, mk_player ''S'' FORWARD 3 True]
       = Inr [mk_player ''S'' FORWARD 3 True]
   \<and> Team_points default_env duo_team
       [mk_player ''B'' FORWARD 0 False, mk_player ''S'' FORWARD 3 True] True = Inr 6"
  by (simp add: scoring_defs example_defs)




section \<open>The goal converter\<close>

subsection \<open>Rounding to a double\<close>

lemma binade:
  assumes "2 ^ 53 \<le> n"
  obtains e where "floorlog 2 n - 53 = e" "1 \<le> e" "2 ^ (52 + e) \<le> n" "n < 2 ^ (53 + e)"
proof -
  have "(0::nat) < 2 ^ 53" by simp
  with assms have pos: "0 < n" by linarith
  have k: "54 \<le> floorlog 2 n" using assms by (intro floorlog_geI) simp_all
  from floorlog_bounds [OF pos, of 2]
  have b: "2 ^ (floorlog 2 n - 1) \<le> n" "n < 2 ^ floorlog 2 n" by simp_all
  let ?e = "floorlog 2 n - 53"
  have "floorlog 2 n - 1 = 52 + ?e" "floorlog 2 n = 53 + ?e" "1 \<le> ?e" using k by simp_all
  with b that [of ?e] show thesis by simp
qed

lemma round_binary64_small: "n < 2 ^ 53 \<Longrightarrow> round_binary64 n = n"
  by (simp add: round_binary64_def)

lemma round_binary64_cases:
  assumes "2 ^ 53 \<le> n" and "floorlog 2 n - 53 = e"
  shows "round_binary64 n = n div 2 ^ e * 2 ^ e \<and> n mod 2 ^ e \<le> 2 ^ (e - 1)
         \<or> round_binary64 n = (n div 2 ^ e + 1) * 2 ^ e"
  using assms by (auto simp: round_binary64_def Let_def)

lemma round_binary64_upper:
  assumes "n < 2 ^ (53 + e')"
  shows "round_binary64 n \<le> 2 ^ (53 + e')"
proof (cases "n < 2 ^ 53")
  case True
  then show ?thesis using assms by (simp add: round_binary64_small)
next
  case False
  then have "2 ^ 53 \<le> n" by simp
  then obtain e where e: "floorlog 2 n - 53 = e" "1 \<le> e" "2 ^ (52 + e) \<le> n" "n < 2 ^ (53 + e)"
    by (rule binade)
  have "(2::nat) ^ (52 + e) < 2 ^ (53 + e')" using e(3) assms by linarith
  then have le: "e \<le> e'" by simp
  have "n < 2 ^ 53 * 2 ^ e" using e(4) by (simp add: power_add)
  then have "n div 2 ^ e < 2 ^ 53" by (simp add: less_mult_imp_div_less)
  then have "(n div 2 ^ e + 1) * 2 ^ e \<le> 2 ^ 53 * 2 ^ e" by (intro mult_le_mono1) simp
  also have "\<dots> = 2 ^ (53 + e)" by (simp only: power_add)
  also have "\<dots> \<le> 2 ^ (53 + e')" using le by (intro power_increasing) simp_all
  finally have up: "(n div 2 ^ e + 1) * 2 ^ e \<le> 2 ^ (53 + e')" .
  have "n div 2 ^ e * 2 ^ e \<le> (n div 2 ^ e + 1) * 2 ^ e" by simp
  with up round_binary64_cases [OF \<open>2 ^ 53 \<le> n\<close> e(1)] show ?thesis by auto
qed

lemma round_binary64_lower:
  assumes "n < 2 ^ (53 + e')"
  shows "n \<le> round_binary64 n + 2 ^ (e' - 1)"
proof (cases "n < 2 ^ 53")
  case True
  then show ?thesis by (simp add: round_binary64_small)
next
  case False
  then have "2 ^ 53 \<le> n" by simp
  then obtain e where e: "floorlog 2 n - 53 = e" "1 \<le> e" "2 ^ (52 + e) \<le> n" "n < 2 ^ (53 + e)"
    by (rule binade)
  have "(2::nat) ^ (52 + e) < 2 ^ (53 + e')" using e(3) assms by linarith
  then have le: "e \<le> e'" by simp
  then have h: "(2::nat) ^ (e - 1) \<le> 2 ^ (e' - 1)" by (simp add: diff_le_mono)
  have n: "n = n div 2 ^ e * 2 ^ e + n mod 2 ^ e" by (rule div_mult_mod_eq [symmetric])
  have m: "n mod 2 ^ e < 2 ^ e" by simp
  have ex: "(n div 2 ^ e + 1) * 2 ^ e = n div 2 ^ e * 2 ^ e + 2 ^ e"
    by (simp add: algebra_simps)
  have "n < (n div 2 ^ e + 1) * 2 ^ e" unfolding ex using n m by linarith
  with round_binary64_cases [OF \<open>2 ^ 53 \<le> n\<close> e(1)] n h show ?thesis
    by linarith
qed

lemma round_binary64_ge:
  assumes "2 ^ (52 + e') \<le> n"
  shows "2 ^ (52 + e') \<le> round_binary64 n"
proof (cases "n < 2 ^ 53")
  case True
  then show ?thesis using assms by (simp add: round_binary64_small)
next
  case False
  then have "2 ^ 53 \<le> n" by simp
  then obtain e where e: "floorlog 2 n - 53 = e" "1 \<le> e" "2 ^ (52 + e) \<le> n" "n < 2 ^ (53 + e)"
    by (rule binade)
  have "(2::nat) ^ (52 + e') < 2 ^ (53 + e)" using e(4) assms by linarith
  then have le: "e' \<le> e" by simp
  have "2 ^ 52 * 2 ^ e \<le> n" using e(3) by (simp add: power_add)
  then have "2 ^ 52 \<le> n div 2 ^ e" by (simp add: less_eq_div_iff_mult_less_eq)
  then have "2 ^ 52 * 2 ^ e \<le> n div 2 ^ e * 2 ^ e" by (intro mult_le_mono1)
  moreover have "(2::nat) ^ (52 + e') \<le> 2 ^ (52 + e)"
    using le by (intro power_increasing) simp_all
  then have "(2::nat) ^ (52 + e') \<le> 2 ^ 52 * 2 ^ e" by (simp only: power_add)
  ultimately have low: "2 ^ (52 + e') \<le> n div 2 ^ e * 2 ^ e" by linarith
  have "n div 2 ^ e * 2 ^ e \<le> (n div 2 ^ e + 1) * 2 ^ e" by simp
  with low round_binary64_cases [OF \<open>2 ^ 53 \<le> n\<close> e(1)] show ?thesis by auto
qed

subsection \<open>The threshold of the loop\<close>

lemma float_add_stuck:
  assumes "t \<le> 2 ^ 58"
  shows "float_add t GOAL_GAP \<le> 2 ^ 58"
proof (cases "t + 20 < 2 ^ 58")
  case True
  then show ?thesis
    using round_binary64_upper [of "t + 20" 5] by (simp add: float_add_def GOAL_GAP_def)
next
  case False
  obtain d where d: "t + 20 = 2 ^ 58 + d" "d \<le> 20"
    using False assms by (metis add_le_cancel_right le_Suc_ex not_less add.commute
        nat_add_left_cancel_le)
  have big: "(2::nat) ^ 53 \<le> t + 20" using False by simp
  have "floorlog 2 (t + 20) = 59"
  proof (rule antisym)
    show "floorlog 2 (t + 20) \<le> 59" using d by (simp add: floorlog_le_iff)
    show "59 \<le> floorlog 2 (t + 20)" using False by (intro floorlog_geI) simp_all
  qed
  then have e: "floorlog 2 (t + 20) - 53 = 6" by simp
  have split: "t + 20 = 2 ^ 52 * 2 ^ 6 + d" using d(1) by simp
  have small: "d div 2 ^ 6 = 0" "d mod 2 ^ 6 = d" using d(2) by simp_all
  have "(2 ^ 52 * 2 ^ 6 + d) div 2 ^ 6 = 2 ^ 52 + d div 2 ^ 6"
    by (rule div_mult_self3) simp
  then have q: "(t + 20) div 2 ^ 6 = 2 ^ 52" using small(1) by (simp only: split add_0_right)
  have "(2 ^ 52 * 2 ^ 6 + d) mod 2 ^ 6 = d mod 2 ^ 6"
    by (rule mod_mult_self3)
  then have r: "(t + 20) mod 2 ^ 6 = d" using small(2) by (simp only: split)
  have q': "(t + 20) div 64 = 4503599627370496" using q by simp
  have r': "(t + 20) mod 64 = d" using r by simp
  show ?thesis
    using big d(2) by (simp add: float_add_def GOAL_GAP_def round_binary64_def e q' r' Let_def)
qed

lemma float_add_increases:
  assumes "t < 2 ^ 58"
  shows "t < float_add t GOAL_GAP"
proof (cases "t + 20 < 2 ^ 58")
  case True
  then show ?thesis
    using round_binary64_lower [of "t + 20" 5] by (simp add: float_add_def GOAL_GAP_def)
next
  case False
  then have "2 ^ (52 + 6) \<le> round_binary64 (t + 20)"
    by (intro round_binary64_ge) simp
  then show ?thesis using assms by (simp add: float_add_def GOAL_GAP_def)
qed

lemma float_add_exact:
  assumes "t + 20 < 2 ^ 55" and "4 dvd t"
  shows "float_add t GOAL_GAP = t + 20"
proof (cases "t + 20 < 2 ^ 53")
  case True
  then show ?thesis by (simp add: float_add_def GOAL_GAP_def round_binary64_small)
next
  case False
  then have big: "2 ^ 53 \<le> t + 20" by simp
  then obtain e where e: "floorlog 2 (t + 20) - 53 = e" "1 \<le> e" "2 ^ (52 + e) \<le> t + 20"
    "t + 20 < 2 ^ (53 + e)"
    by (rule binade)
  have "(2::nat) ^ (52 + e) < 2 ^ 55" using e(3) assms(1) by linarith
  then have "52 + e < 55" by (simp only: power_strict_increasing_iff)
  then have "e \<le> 2" by simp
  then have "(2::nat) ^ e dvd 2 ^ 2" by (rule le_imp_power_dvd)
  moreover have "(4::nat) dvd t + 20" using assms(2) by simp
  ultimately have dv: "2 ^ e dvd t + 20" by (simp add: dvd_trans)
  then have r: "(t + 20) mod 2 ^ e = 0" by simp
  from dv have q: "(t + 20) div 2 ^ e * 2 ^ e = t + 20" by simp
  show ?thesis
    using False by (simp add: float_add_def GOAL_GAP_def round_binary64_def e(1) r q Let_def)
qed

subsection \<open>The loop\<close>

lemma goals_loop_diverges:
  assumes "2 ^ 58 < pts" and "t \<le> 2 ^ 58"
  shows "goals_loop pts g t = None"
proof -
  have "\<not> (2 ^ 58 < p \<and> t \<le> 2 ^ 58)" if r: "goals_loop p g t = Some y" for p g t y
  proof (rule goals_loop.raw_induct
      [where P = "\<lambda>p g t y. \<not> (2 ^ 58 < p \<and> t \<le> 2 ^ 58)", OF _ r])
    fix loop :: "real \<Rightarrow> nat \<Rightarrow> nat \<Rightarrow> nat option" and p :: real and g t y :: nat
    assume IH: "\<And>p g t y. loop p g t = Some y \<Longrightarrow> \<not> (2 ^ 58 < p \<and> t \<le> 2 ^ 58)"
      and step: "(if real t < p then loop p (g + 1) (float_add t GOAL_GAP) else Some g) = Some y"
    show "\<not> (2 ^ 58 < p \<and> t \<le> 2 ^ 58)"
    proof
      assume a: "2 ^ 58 < p \<and> t \<le> 2 ^ 58"
      then have "real t \<le> 2 ^ 58"
        by (metis of_nat_le_iff of_nat_numeral of_nat_power)
      with a have "real t < p" by linarith
      with step have "loop p (g + 1) (float_add t GOAL_GAP) = Some y" by simp
      then have "\<not> (2 ^ 58 < p \<and> float_add t GOAL_GAP \<le> 2 ^ 58)" by (rule IH)
      with a float_add_stuck [of t] show False by simp
    qed
  qed
  with assms show ?thesis by (cases "goals_loop pts g t") auto
qed

lemma goals_loop_terminates:
  assumes "pts \<le> 2 ^ 58"
  shows "\<exists>r. goals_loop pts g t = Some r"
proof (induction "2 ^ 58 - t" arbitrary: g t rule: less_induct)
  case less
  show ?case
  proof (cases "real t < pts")
    case False
    then show ?thesis by (subst goals_loop.simps) simp
  next
    case True
    then have "real t < 2 ^ 58" using assms by linarith
    then have t: "t < 2 ^ 58"
      by (metis of_nat_less_iff of_nat_numeral of_nat_power)
    then have "t < float_add t GOAL_GAP" by (rule float_add_increases)
    then have "2 ^ 58 - float_add t GOAL_GAP < 2 ^ 58 - t" using t by linarith
    then obtain r where "goals_loop pts (g + 1) (float_add t GOAL_GAP) = Some r"
      using less [of "float_add t GOAL_GAP" "g + 1"] by blast
    then show ?thesis using True by (subst goals_loop.simps) simp
  qed
qed

lemma float_add_tie:
  "float_add (2 ^ 55 - 8) GOAL_GAP = 2 ^ 55 + 16"
proof -
  have n: "(2::nat) ^ 55 - 8 + 20 = 2 ^ 55 + 12" by simp
  have "floorlog 2 (2 ^ 55 + 12) = 56"
  proof (rule antisym)
    show "floorlog 2 (2 ^ 55 + 12) \<le> 56" by (simp add: floorlog_le_iff)
    show "56 \<le> floorlog 2 (2 ^ 55 + 12)" by (intro floorlog_geI) simp_all
  qed
  then have e: "floorlog 2 36028797018963980 = 56" by simp
  show ?thesis
    unfolding float_add_def GOAL_GAP_def n
    by (simp add: round_binary64_def e)
qed

lemma ladder_step:
  assumes "real t < pts" and "t < b"
  shows "card {k::nat. real (t + k * 20) < pts \<and> t + k * 20 < b}
           = Suc (card {k::nat. real (t + 20 + k * 20) < pts \<and> t + 20 + k * 20 < b})"
proof -
  let ?S = "{k::nat. real (t + k * 20) < pts \<and> t + k * 20 < b}"
  let ?T = "{k::nat. real (t + 20 + k * 20) < pts \<and> t + 20 + k * 20 < b}"
  have fin: "finite ?T" by (rule finite_subset [of _ "{..<b}"]) auto
  have "?S = insert 0 (Suc ` ?T)"
  proof (rule set_eqI)
    fix k show "k \<in> ?S \<longleftrightarrow> k \<in> insert 0 (Suc ` ?T)"
      using assms by (cases k) (auto simp: algebra_simps image_iff)
  qed
  moreover have "card (insert 0 (Suc ` ?T)) = Suc (card (Suc ` ?T))"
    using fin by (intro card_insert_disjoint) auto
  moreover have "card (Suc ` ?T) = card ?T" by (rule card_image) simp
  ultimately show ?thesis by simp
qed

lemma goals_loop_count:
  assumes "pts \<le> 2 ^ 55 + 16" and "20 dvd t" and "t < 2 ^ 55"
  shows "goals_loop pts g t
           = Some (g + card {k::nat. real (t + k * 20) < pts \<and> t + k * 20 < 2 ^ 55 + 12})"
  using assms(2,3)
proof (induction "2 ^ 55 - t" arbitrary: g t rule: less_induct)
  case less
  let ?S = "\<lambda>t. {k::nat. real (t + k * 20) < pts \<and> t + k * 20 < 2 ^ 55 + 12}"
  show ?case
  proof (cases "real t < pts")
    case False
    have "?S t = {}"
    proof -
      have "\<not> real (t + k * 20) < pts" for k
      proof -
        have "real t \<le> real (t + k * 20)" by simp
        with False show ?thesis by linarith
      qed
      then show ?thesis by blast
    qed
    with False show ?thesis by (subst goals_loop.simps) simp
  next
    case True
    have tb: "t < 2 ^ 55 + 12" using less.prems(2) by simp
    show ?thesis
    proof (cases "t + 20 < 2 ^ 55")
      case lt: True
      have "4 dvd t" using less.prems(1) by (rule dvd_trans [rotated]) simp
      with lt have fa: "float_add t GOAL_GAP = t + 20" by (rule float_add_exact)
      have "goals_loop pts (g + 1) (t + 20) = Some (g + 1 + card (?S (t + 20)))"
        using less.prems lt by (intro less.hyps) auto
      moreover have "card (?S t) = Suc (card (?S (t + 20)))"
        using True tb by (rule ladder_step)
      ultimately show ?thesis
        using True fa by (subst goals_loop.simps) simp
    next
      case ge: False
      obtain m where m: "t = 20 * m" using less.prems(1) by (auto simp: dvd_def)
      have teq: "t = 2 ^ 55 - 8" using ge less.prems(2) unfolding m by simp
      then have fa: "float_add t GOAL_GAP = 2 ^ 55 + 16" by (simp only: float_add_tie)
      have stop: "\<not> real ((2::nat) ^ 55 + 16) < pts" using assms(1) by simp
      have "?S t = {0}"
      proof (rule set_eqI)
        fix k show "k \<in> ?S t \<longleftrightarrow> k \<in> {0}"
        proof (cases k)
          case 0
          then show ?thesis using True tb by simp
        next
          case (Suc j)
          have "\<not> t + Suc j * 20 < 2 ^ 55 + 12" unfolding teq by simp
          with Suc show ?thesis by simp
        qed
      qed
      then have "card (?S t) = 1" by simp
      moreover have "goals_loop pts (g + 1) (2 ^ 55 + 16) = Some (g + 1)"
        using stop by (subst goals_loop.simps) simp
      ultimately show ?thesis
        using True fa by (subst goals_loop.simps) simp
    qed
  qed
qed

lemma points_to_goals_capped:
  assumes "pts \<le> 2 ^ 55 + 16"
  shows "points_to_goals pts
           = Some (card {k::nat. real (GOAL_THRESHOLD + k * GOAL_GAP) < pts
                          \<and> GOAL_THRESHOLD + k * GOAL_GAP < 2 ^ 55 + 12})"
  unfolding points_to_goals_def
  using goals_loop_count [OF assms, of 200 0] by (simp add: GOAL_THRESHOLD_def GOAL_GAP_def)

lemma float_add_fixed_point: "float_add (2 ^ 58) GOAL_GAP = 2 ^ 58"
proof (rule antisym)
  show "float_add (2 ^ 58) GOAL_GAP \<le> 2 ^ 58" by (rule float_add_stuck) simp
  have "2 ^ (52 + 6) \<le> round_binary64 (2 ^ 58 + 20)" by (rule round_binary64_ge) simp
  then show "2 ^ 58 \<le> float_add (2 ^ 58) GOAL_GAP" by (simp add: float_add_def GOAL_GAP_def)
qed

text \<open>
  C7, amended. For every input up to \<open>2^55 + 12\<close> (36028797018963980), \<^verbatim>\<open>points_to_goals\<close>
  returns the number of thresholds 200, 220, 240, ... that the input strictly exceeds; it
  returns 3 for 250, and 0 for every input up to 200.
\<close>

theorem points_to_goals_counts_ladder:
  assumes "pts \<le> 2 ^ 55 + 12"
  shows "points_to_goals pts
           = Some (card {k::nat. real (GOAL_THRESHOLD + k * GOAL_GAP) < pts})
         \<and> points_to_goals 250 = Some 3
         \<and> (pts \<le> 200 \<longrightarrow> points_to_goals pts = Some 0)"
proof (intro conjI impI)
  have "real (GOAL_THRESHOLD + k * GOAL_GAP) < pts
          \<Longrightarrow> GOAL_THRESHOLD + k * GOAL_GAP < 2 ^ 55 + 12" for k
  proof -
    assume "real (GOAL_THRESHOLD + k * GOAL_GAP) < pts"
    with assms have "real (GOAL_THRESHOLD + k * GOAL_GAP) < real (2 ^ 55 + 12)" by simp
    then show ?thesis by (simp only: of_nat_less_iff)
  qed
  then have "{k::nat. real (GOAL_THRESHOLD + k * GOAL_GAP) < pts
                \<and> GOAL_THRESHOLD + k * GOAL_GAP < 2 ^ 55 + 12}
             = {k::nat. real (GOAL_THRESHOLD + k * GOAL_GAP) < pts}"
    by blast
  moreover have "pts \<le> 2 ^ 55 + 16" using assms by simp
  ultimately show "points_to_goals pts
      = Some (card {k::nat. real (GOAL_THRESHOLD + k * GOAL_GAP) < pts})"
    using points_to_goals_capped [of pts] by simp
next
  show "points_to_goals 250 = Some 3"
    by (simp add: points_to_goals_def goals_loop.simps float_add_def round_binary64_def
        GOAL_GAP_def GOAL_THRESHOLD_def)
next
  assume "pts \<le> 200"
  then show "points_to_goals pts = Some 0"
    unfolding points_to_goals_def by (subst goals_loop.simps) (simp add: GOAL_THRESHOLD_def)
qed

text \<open>Witness for C7: the input 250 exceeds three thresholds.\<close>

theorem points_to_goals_counts_ladder_witness:
  "(250::real) \<le> 2 ^ 55 + 12
   \<and> points_to_goals 250 = Some (card {k::nat. real (GOAL_THRESHOLD + k * GOAL_GAP) < 250})
   \<and> card {k::nat. real (GOAL_THRESHOLD + k * GOAL_GAP) < 250} = 3"
proof -
  have h: "(250::real) \<le> 2 ^ 55 + 12" by simp
  note t = points_to_goals_counts_ladder [OF h]
  from t have a: "points_to_goals 250
      = Some (card {k::nat. real (GOAL_THRESHOLD + k * GOAL_GAP) < 250})"
    by (rule conjunct1)
  from t have b: "points_to_goals 250 = Some 3"
    by (rule conjunct1 [OF conjunct2])
  from b [unfolded a] have "card {k::nat. real (GOAL_THRESHOLD + k * GOAL_GAP) < 250} = 3"
    by (simp only: option.inject)
  with h a show ?thesis by blast
qed

text \<open>
  C7, as stated, fails. The threshold after \<open>2^55 - 8\<close> is \<open>2^55 + 12\<close>, which is no double: the
  sum is rounded to \<open>2^55 + 16\<close> (\<^verbatim>\<open>float_add_tie\<close>). The input \<open>2^55 + 16\<close> exceeds the threshold
  \<open>2^55 + 12\<close> of the ladder but not the rounded one, so the loop returns one goal less than
  the number of thresholds exceeded.
\<close>

theorem points_to_goals_misses_rounded_threshold:
  "points_to_goals (2 ^ 55 + 16) = Some 1801439850948189
   \<and> card {k::nat. real (GOAL_THRESHOLD + k * GOAL_GAP) < 2 ^ 55 + 16} = 1801439850948190"
proof
  have "{k::nat. real (GOAL_THRESHOLD + k * GOAL_GAP) < 2 ^ 55 + 16
           \<and> GOAL_THRESHOLD + k * GOAL_GAP < 2 ^ 55 + 12} = {..<1801439850948189}"
    by (auto simp: GOAL_THRESHOLD_def GOAL_GAP_def)
  then show "points_to_goals (2 ^ 55 + 16) = Some 1801439850948189"
    using points_to_goals_capped [of "2 ^ 55 + 16"] by simp
next
  have "real (GOAL_THRESHOLD + k * GOAL_GAP) < 2 ^ 55 + 16 \<longleftrightarrow> k < 1801439850948190" for k
  proof -
    have "real (GOAL_THRESHOLD + k * GOAL_GAP) < 2 ^ 55 + 16
            \<longleftrightarrow> real (GOAL_THRESHOLD + k * GOAL_GAP) < real (2 ^ 55 + 16)"
      by simp
    also have "\<dots> \<longleftrightarrow> GOAL_THRESHOLD + k * GOAL_GAP < 2 ^ 55 + 16"
      by (simp only: of_nat_less_iff)
    also have "\<dots> \<longleftrightarrow> k < 1801439850948190"
      by (simp add: GOAL_THRESHOLD_def GOAL_GAP_def) arith
    finally show ?thesis .
  qed
  then have "{k::nat. real (GOAL_THRESHOLD + k * GOAL_GAP) < 2 ^ 55 + 16}
               = {..<1801439850948190}"
    by blast
  then show "card {k::nat. real (GOAL_THRESHOLD + k * GOAL_GAP) < 2 ^ 55 + 16}
               = 1801439850948190"
    by simp
qed

text \<open>
  C8, amended. \<^verbatim>\<open>points_to_goals\<close> is a function of its input, and it returns exactly for the
  inputs up to \<open>2^58\<close> (288230376151711744): a threshold below \<open>2^58\<close> strictly increases when
  the gap is added.
\<close>

theorem points_to_goals_returns_iff:
  "((\<exists>g. points_to_goals pts = Some g) \<longleftrightarrow> pts \<le> 2 ^ 58)
   \<and> (t < 2 ^ 58 \<longrightarrow> t < float_add t GOAL_GAP)"
proof (intro conjI impI)
  show "(\<exists>g. points_to_goals pts = Some g) \<longleftrightarrow> pts \<le> 2 ^ 58"
  proof
    assume "\<exists>g. points_to_goals pts = Some g"
    show "pts \<le> 2 ^ 58"
    proof (rule ccontr)
      assume "\<not> pts \<le> 2 ^ 58"
      then have "goals_loop pts 0 GOAL_THRESHOLD = None"
        by (intro goals_loop_diverges) (simp_all add: GOAL_THRESHOLD_def)
      with \<open>\<exists>g. points_to_goals pts = Some g\<close> show False
        by (simp add: points_to_goals_def)
    qed
  next
    assume "pts \<le> 2 ^ 58"
    then show "\<exists>g. points_to_goals pts = Some g"
      unfolding points_to_goals_def by (rule goals_loop_terminates)
  qed
next
  assume "t < 2 ^ 58"
  then show "t < float_add t GOAL_GAP" by (rule float_add_increases)
qed

text \<open>Witness for C8: the input 250 and the first threshold.\<close>

theorem points_to_goals_returns_iff_witness:
  "(\<exists>g. points_to_goals 250 = Some g) \<and> (250::real) \<le> 2 ^ 58
   \<and> (200::nat) < 2 ^ 58 \<and> 200 < float_add 200 GOAL_GAP"
proof -
  have h: "(250::real) \<le> 2 ^ 58" "(200::nat) < 2 ^ 58" by simp_all
  from points_to_goals_returns_iff [of 250 200] h show ?thesis by blast
qed

text \<open>
  C8, as stated, fails. Adding 20.0 to the double \<open>2^58\<close> gives \<open>2^58\<close> again, the threshold
  never passes it, and for the finite input \<open>2^59\<close> the loop does not end.
\<close>

theorem points_to_goals_never_returns:
  "float_add (2 ^ 58) GOAL_GAP = 2 ^ 58 \<and> points_to_goals (2 ^ 59) = None"
proof
  show "float_add (2 ^ 58) GOAL_GAP = 2 ^ 58" by (rule float_add_fixed_point)
  show "points_to_goals (2 ^ 59) = None"
    unfolding points_to_goals_def
    by (rule goals_loop_diverges) (simp_all add: GOAL_THRESHOLD_def)
qed

end
